theory Spec2Isabelle
  imports Complex_Main
begin

section \<open>Curve extraction and centre clustering (Radios_curva.py)\<close>

text \<open>
  A shallow embedding of the algorithm \<open>ExtraerCurvasYCentroides\<close>. Python floats are
  read as real numbers: rounding and overflow of doubles are outside this model, and every
  statement below is one of exact arithmetic. The two operations of \<open>circle_radius\<close> that
  raise in Python (\<open>math.sqrt\<close> of a negative number, a float division by zero) are
  branches of the model.
\<close>

subsection \<open>Points and distance\<close>

text \<open>\<open>QgsPointXY\<close>: a pair of coordinates; its accessors \<open>x()\<close>, \<open>y()\<close> are \<open>px\<close>, \<open>py\<close>.\<close>

datatype point = QgsPointXY (px: real) (py: real)

text \<open>\<open>QgsPointXY.distance\<close>, the Euclidean distance of the host library.\<close>

definition distance :: "point \<Rightarrow> point \<Rightarrow> real" where
  "distance p q = sqrt ((px p - px q)\<^sup>2 + (py p - py q)\<^sup>2)"

subsection \<open>The circumcircle solver\<close>

text \<open>
  \<open>circle_radius\<close> (lines 123--142). Inside the \<open>try\<close>, \<open>math.sqrt\<close> raises
  \<open>ValueError\<close> on a negative argument and the division raises \<open>ZeroDivisionError\<close> when
  \<open>4 * area\<close> is zero; the bare \<open>except\<close> turns both into \<open>None\<close>.
\<close>

definition circle_radius :: "point \<Rightarrow> point \<Rightarrow> point \<Rightarrow> real option" where
  "circle_radius p1 p2 p3 =
     (let a = distance p1 p2; b = distance p2 p3; c = distance p3 p1;
          s = (a + b + c) / 2;
          arg = s * (s - a) * (s - b) * (s - c)
      in if arg < 0 then None
         else (let area = sqrt arg
               in if 4 * area = 0 then None
                  else Some ((a * b * c) / (4 * area))))"

text \<open>\<open>circle_center\<close> (lines 144--165), with its guard on the determinant.\<close>

definition circle_center :: "point \<Rightarrow> point \<Rightarrow> point \<Rightarrow> point option" where
  "circle_center p1 p2 p3 =
     (let ax = px p1; ay = py p1; bx = px p2; by = py p2; cx = px p3; cy = py p3;
          d = 2 * (ax * (by - cy) + bx * (cy - ay) + cx * (ay - by))
      in if \<bar>d\<bar> < 1 / 10 ^ 9 then None
         else (let ux = ((ax * ax + ay * ay) * (by - cy) +
                         (bx * bx + by * by) * (cy - ay) +
                         (cx * cx + cy * cy) * (ay - by)) / d;
                   uy = ((ax * ax + ay * ay) * (cx - bx) +
                         (bx * bx + by * by) * (ax - cx) +
                         (cx * cx + cy * cy) * (bx - ax)) / d
               in Some (QgsPointXY ux uy)))"

subsection \<open>The segment extractor\<close>

text \<open>
  The numeric parameters read at lines 170--175. \<open>intervalo\<close> is used by the densifier of
  the host only.
\<close>

record params =
  intervalo :: real
  rmin :: real
  rmax :: real
  md :: real
  incluir_ctr :: bool
  dist_agrup :: real

text \<open>The dictionary appended to \<open>segmentos\<close> (lines 208--213).\<close>

record segment =
  geom :: "point list"
  radio :: real
  long :: real
  centro :: "point option"

text \<open>
  The body of the innermost loop (lines 197--213) for one triplet: \<open>None\<close> when the
  triplet is skipped, the new segment otherwise. The test \<open>if r and ...\<close> is false for
  \<open>None\<close> and for a radius of zero. The length of the three-point line is the sum of
  its two edges.
\<close>

definition triplet_segment :: "params \<Rightarrow> point \<Rightarrow> point \<Rightarrow> point \<Rightarrow> segment option" where
  "triplet_segment P p1 p2 p3 =
     (if distance p1 p2 < md P \<or> distance p2 p3 < md P then None
      else (case circle_radius p1 p2 p3 of
              None \<Rightarrow> None
            | Some r \<Rightarrow>
                if r \<noteq> 0 \<and> rmin P < r \<and> r < rmax P
                then Some \<lparr>geom = [p1, p2, p3], radio = r,
                           long = distance p1 p2 + distance p2 p3,
                           centro = (if incluir_ctr P then circle_center p1 p2 p3 else None)\<rparr>
                else None))"

text \<open>Python's \<open>range(n)\<close> for an integer \<open>n\<close>: empty when \<open>n\<close> is not positive.\<close>

definition py_range :: "int \<Rightarrow> nat list" where
  "py_range n = [0..<nat n]"

text \<open>
  The loop over \<open>j\<close> (line 196), appending to \<open>segmentos\<close>. It is run on the indices
  of \<open>range(len(line) - 2)\<close>, for which \<open>j + 2\<close> is within the line.
\<close>

fun line_loop :: "params \<Rightarrow> point list \<Rightarrow> nat list \<Rightarrow> segment list \<Rightarrow> segment list" where
  "line_loop P line [] segmentos = segmentos"
| "line_loop P line (j # js) segmentos =
     (case triplet_segment P (line ! j) (line ! (j + 1)) (line ! (j + 2)) of
        None \<Rightarrow> line_loop P line js segmentos
      | Some seg \<Rightarrow> line_loop P line js (segmentos @ [seg]))"

text \<open>The loop over the parts of one feature (line 194).\<close>

fun parts_loop :: "params \<Rightarrow> point list list \<Rightarrow> segment list \<Rightarrow> segment list" where
  "parts_loop P [] segmentos = segmentos"
| "parts_loop P (line # rest) segmentos =
     parts_loop P rest (line_loop P line (py_range (int (length line) - 2)) segmentos)"

text \<open>A feature's geometry, and line 193: the parts of a multipart or a simple line.\<close>

datatype geometry = Polyline "point list" | MultiPolyline "point list list"

fun parts :: "geometry \<Rightarrow> point list list" where
  "parts (MultiPolyline ls) = ls"
| "parts (Polyline l) = [l]"

datatype error = QgsProcessingException | ZeroDivisionError | IndexError | AttributeError

text \<open>
  The loop over the features (lines 189--214). \<open>canceled i\<close> is the answer of
  \<open>feedback.isCanceled()\<close> at the poll that opens iteration \<open>i\<close>; the second component of
  the state is the list of values given to \<open>feedback.setProgress\<close>. The division by
  \<open>total_f\<close> raises when it is zero.
\<close>

fun features_loop ::
  "params \<Rightarrow> (nat \<Rightarrow> bool) \<Rightarrow> nat \<Rightarrow> nat \<Rightarrow> geometry list \<Rightarrow> segment list \<times> int list
     \<Rightarrow> error + segment list \<times> int list" where
  "features_loop P canceled total_f i [] st = Inr st"
| "features_loop P canceled total_f i (feat # rest) (segmentos, progress) =
     (if canceled i then Inr (segmentos, progress)
      else (let segmentos' = parts_loop P (parts feat) segmentos
            in if total_f = 0 then Inl ZeroDivisionError
               else features_loop P canceled total_f (i + 1) rest
                      (segmentos', progress @ [(100 * int i) div int total_f])))"

subsection \<open>The incremental clusterer\<close>

text \<open>A cluster dictionary (lines 239--243).\<close>

record cluster =
  centroid :: point
  indices :: "nat list"
  sum_r :: real

record cluster_state =
  clusters :: "cluster list"
  mapa_cluster :: "nat \<rightharpoonup> nat"

text \<open>
  \<open>segmentos[k]['centro']\<close> followed by a call of \<open>x()\<close> or \<open>y()\<close>: the index raises
  out of range, the call raises on \<open>None\<close>.
\<close>

definition centro_at :: "segment list \<Rightarrow> nat \<Rightarrow> error + point" where
  "centro_at segmentos k =
     (if k < length segmentos
      then (case centro (segmentos ! k) of None \<Rightarrow> Inl AttributeError | Some c \<Rightarrow> Inr c)
      else Inl IndexError)"

text \<open>
  The comprehensions of lines 231--232 read the centres of the members in order; \<open>xs\<close> and
  \<open>ys\<close> are the coordinates of the list returned here.
\<close>

fun centros_of :: "segment list \<Rightarrow> nat list \<Rightarrow> error + point list" where
  "centros_of segmentos [] = Inr []"
| "centros_of segmentos (k # ks) =
     (case centro_at segmentos k of
        Inl e \<Rightarrow> Inl e
      | Inr c \<Rightarrow> (case centros_of segmentos ks of
                    Inl e \<Rightarrow> Inl e
                  | Inr cs \<Rightarrow> Inr (c # cs)))"

text \<open>
  The scan of lines 225--236 over the clusters from number \<open>cid\<close> on: \<open>Inr None\<close> when the
  loop ends with \<open>asignado\<close> still false, otherwise the clusters after the update and the
  number of the cluster that took the segment.
\<close>

fun scan_clusters ::
  "real \<Rightarrow> segment list \<Rightarrow> nat \<Rightarrow> segment \<Rightarrow> point \<Rightarrow> cluster list \<Rightarrow> nat
     \<Rightarrow> error + (cluster list \<times> nat) option" where
  "scan_clusters d segmentos idx seg pt [] cid = Inr None"
| "scan_clusters d segmentos idx seg pt (cl # rest) cid =
     (if distance pt (centroid cl) \<le> d
      then (let idxs = indices cl @ [idx]; sr = sum_r cl + radio seg
            in case centros_of segmentos idxs of
                 Inl e \<Rightarrow> Inl e
               | Inr cs \<Rightarrow>
                   (let xs = map px cs; ys = map py cs
                    in if length xs = 0 \<or> length ys = 0 then Inl ZeroDivisionError
                       else Inr (Some (\<lparr>centroid = QgsPointXY (sum_list xs / real (length xs))
                                                               (sum_list ys / real (length ys)),
                                         indices = idxs, sum_r = sr\<rparr> # rest, cid))))
      else (case scan_clusters d segmentos idx seg pt rest (cid + 1) of
              Inl e \<Rightarrow> Inl e
            | Inr None \<Rightarrow> Inr None
            | Inr (Some (rest', c)) \<Rightarrow> Inr (Some (cl # rest', c))))"

text \<open>One iteration of the loop of line 220.\<close>

definition cluster_step ::
  "real \<Rightarrow> segment list \<Rightarrow> nat \<times> segment \<Rightarrow> cluster_state \<Rightarrow> error + cluster_state" where
  "cluster_step d segmentos item st =
     (case item of (idx, seg) \<Rightarrow>
        (case centro seg of
           None \<Rightarrow> Inr st
         | Some pt \<Rightarrow>
             (case scan_clusters d segmentos idx seg pt (clusters st) 0 of
                Inl e \<Rightarrow> Inl e
              | Inr (Some (cls, cid)) \<Rightarrow>
                  Inr \<lparr>clusters = cls, mapa_cluster = (mapa_cluster st)(idx \<mapsto> cid)\<rparr>
              | Inr None \<Rightarrow>
                  (let cls = clusters st @ [\<lparr>centroid = pt, indices = [idx], sum_r = radio seg\<rparr>]
                   in Inr \<lparr>clusters = cls,
                           mapa_cluster = (mapa_cluster st)(idx \<mapsto> length cls - 1)\<rparr>))))"

fun cluster_loop ::
  "real \<Rightarrow> segment list \<Rightarrow> (nat \<times> segment) list \<Rightarrow> cluster_state \<Rightarrow> error + cluster_state" where
  "cluster_loop d segmentos [] st = Inr st"
| "cluster_loop d segmentos (item # rest) st =
     (case cluster_step d segmentos item st of
        Inl e \<Rightarrow> Inl e
      | Inr st' \<Rightarrow> cluster_loop d segmentos rest st')"

definition no_clusters :: cluster_state where
  "no_clusters = \<lparr>clusters = [], mapa_cluster = Map.empty\<rparr>"

text \<open>Step 4 (lines 217--244).\<close>

definition cluster_all :: "params \<Rightarrow> segment list \<Rightarrow> error + cluster_state" where
  "cluster_all P segmentos =
     (if incluir_ctr P
      then cluster_loop (dist_agrup P) segmentos (enumerate 0 segmentos) no_clusters
      else Inr no_clusters)"

text \<open>The state after the first \<open>n\<close> iterations of the loop of line 220.\<close>

definition cluster_prefix :: "real \<Rightarrow> segment list \<Rightarrow> nat \<Rightarrow> error + cluster_state" where
  "cluster_prefix d segmentos n =
     cluster_loop d segmentos (take n (enumerate 0 segmentos)) no_clusters"

subsection \<open>The two output layers\<close>

text \<open>A feature of the curves layer (lines 257--264) and one of the centres layer (lines 278--286).\<close>

record curve_feature =
  curve_geometry :: "point list"
  ID_Curva :: int
  ID_Centroide :: int
  Radio :: real
  Longitud :: real

record center_feature =
  center_geometry :: point
  ID_Centroide_c :: int
  Radio_medio :: real
  Conteo :: int

text \<open>\<open>mapa_cluster.get(idx, -1)\<close>.\<close>

definition get_cluster :: "(nat \<rightharpoonup> nat) \<Rightarrow> nat \<Rightarrow> int" where
  "get_cluster m idx = (case m idx of None \<Rightarrow> - 1 | Some cid \<Rightarrow> int cid)"

definition curve_features :: "segment list \<Rightarrow> (nat \<rightharpoonup> nat) \<Rightarrow> curve_feature list" where
  "curve_features segmentos m =
     map (\<lambda>(idx, seg). \<lparr>curve_geometry = geom seg, ID_Curva = int idx,
                          ID_Centroide = get_cluster m idx,
                          Radio = radio seg, Longitud = long seg\<rparr>)
         (enumerate 0 segmentos)"

definition center_features :: "cluster list \<Rightarrow> center_feature list" where
  "center_features cls =
     map (\<lambda>(cid, cl).
            (let cnt = length (indices cl);
                 avg = (if cnt \<noteq> 0 then sum_r cl / real cnt else 0)
             in \<lparr>center_geometry = centroid cl, ID_Centroide_c = int cid,
                  Radio_medio = avg, Conteo = int cnt\<rparr>))
         (enumerate 0 cls)"

record result =
  OUTPUT_CURVES :: "curve_feature list"
  OUTPUT_CENTERS :: "center_feature list option"
  progress_log :: "int list"

text \<open>
  \<open>processAlgorithm\<close> (lines 167--297). \<open>layer\<close> is \<open>None\<close> for an invalid input layer;
  \<open>densify\<close> stands for the host's densification (\<open>processing.run\<close>), whose output layer
  has \<open>featureCount()\<close> features. The result holds the features added to the two sinks
  and the values reported as progress.
\<close>

definition processAlgorithm ::
  "(real \<Rightarrow> geometry list \<Rightarrow> geometry list) \<Rightarrow> params \<Rightarrow> geometry list option \<Rightarrow> (nat \<Rightarrow> bool)
     \<Rightarrow> error + result" where
  "processAlgorithm densify P layer canceled =
     (case layer of
        None \<Rightarrow> Inl QgsProcessingException
      | Some feats \<Rightarrow>
          (let dens = densify (intervalo P) feats;
               total_f = length dens
           in case features_loop P canceled total_f 0 dens ([], []) of
                Inl e \<Rightarrow> Inl e
              | Inr (segmentos, progress) \<Rightarrow>
                  (case cluster_all P segmentos of
                     Inl e \<Rightarrow> Inl e
                   | Inr st \<Rightarrow>
                       Inr \<lparr>OUTPUT_CURVES = curve_features segmentos (mapa_cluster st),
                            OUTPUT_CENTERS =
                              (if incluir_ctr P then Some (center_features (clusters st))
                               else None),
                            progress_log = progress\<rparr>)))"

subsection \<open>Notions used to state the properties\<close>


text \<open>The arithmetic mean of a list of points, coordinate by coordinate.\<close>

definition mean_point :: "point list \<Rightarrow> point" where
  "mean_point ps = QgsPointXY (sum_list (map px ps) / real (length ps))
                              (sum_list (map py ps) / real (length ps))"

text \<open>
  The triplet that starts at vertex \<open>j\<close> of a part, the segments one part yields, and those
  of one feature.
\<close>

definition triplet_at :: "params \<Rightarrow> point list \<Rightarrow> nat \<Rightarrow> segment option" where
  "triplet_at P line j = triplet_segment P (line ! j) (line ! (j + 1)) (line ! (j + 2))"

definition line_segments :: "params \<Rightarrow> point list \<Rightarrow> segment list" where
  "line_segments P line = line_loop P line (py_range (int (length line) - 2)) []"

definition feature_segments :: "params \<Rightarrow> geometry \<Rightarrow> segment list" where
  "feature_segments P feat = parts_loop P (parts feat) []"

text \<open>
  Well-formed members: every cluster lists at least one segment, and every segment it lists is
  one of the first \<open>n\<close> segments and has a centre.
\<close>

definition members_ok :: "segment list \<Rightarrow> nat \<Rightarrow> cluster list \<Rightarrow> bool" where
  "members_ok segmentos n cls \<longleftrightarrow>
     (\<forall>cl \<in> set cls. indices cl \<noteq> [] \<and>
        (\<forall>k \<in> set (indices cl). k < n \<and> k < length segmentos \<and> centro (segmentos ! k) \<noteq> None))"

text \<open>How many times segment \<open>idx\<close> is listed as a member, over all clusters.\<close>

definition assignments :: "cluster list \<Rightarrow> nat \<Rightarrow> nat" where
  "assignments cls idx = sum_list (map (\<lambda>cl. count_list (indices cl) idx) cls)"

text \<open>Every centroid is the mean of the centres of the segments its cluster lists.\<close>

definition centroids_ok :: "segment list \<Rightarrow> cluster list \<Rightarrow> bool" where
  "centroids_ok segmentos cls \<longleftrightarrow>
     (\<forall>cl \<in> set cls. \<exists>cs. centros_of segmentos (indices cl) = Inr cs \<and> cs \<noteq> [] \<and>
                           centroid cl = mean_point cs)"

text \<open>
  The map agrees with the member lists: a segment is listed once, in the cluster the map
  names, when the map has it, and nowhere otherwise.
\<close>

definition assigned_ok :: "cluster_state \<Rightarrow> bool" where
  "assigned_ok st \<longleftrightarrow>
     (\<forall>idx. assignments (clusters st) idx =
              (case mapa_cluster st idx of None \<Rightarrow> 0 | Some cid \<Rightarrow> 1)) \<and>
     (\<forall>idx cid. mapa_cluster st idx = Some cid \<longrightarrow>
                cid < length (clusters st) \<and> idx \<in> set (indices (clusters st ! cid)))"

text \<open>The three together: what holds of the state once \<open>n\<close> segments have been scanned.\<close>

definition state_ok :: "segment list \<Rightarrow> nat \<Rightarrow> cluster_state \<Rightarrow> bool" where
  "state_ok segmentos n st \<longleftrightarrow>
     members_ok segmentos n (clusters st) \<and> centroids_ok segmentos (clusters st) \<and> assigned_ok st"

text \<open>Whether a centre is within the grouping distance of a cluster's centroid (line 227).\<close>

definition in_reach :: "real \<Rightarrow> point \<Rightarrow> cluster \<Rightarrow> bool" where
  "in_reach d pt cl \<longleftrightarrow> distance pt (centroid cl) \<le> d"

text \<open>
  The argument of the square root in \<open>circle_radius\<close>, the determinant \<open>d\<close> of
  \<open>circle_center\<close>, and the numerators of the two coordinates of the centre.
\<close>

definition heron_arg :: "point \<Rightarrow> point \<Rightarrow> point \<Rightarrow> real" where
  "heron_arg p1 p2 p3 =
     (let a = distance p1 p2; b = distance p2 p3; c = distance p3 p1;
          s = (a + b + c) / 2
      in s * (s - a) * (s - b) * (s - c))"

definition center_det :: "point \<Rightarrow> point \<Rightarrow> point \<Rightarrow> real" where
  "center_det p1 p2 p3 =
     2 * (px p1 * (py p2 - py p3) + px p2 * (py p3 - py p1) + px p3 * (py p1 - py p2))"



subsection \<open>Example data\<close>

text \<open>
  The default parameters of \<open>initAlgorithm\<close>, with the centres layer switched on; three
  vertices at the corner of a 3-4-5 triangle and the segment they give; segments for the
  clusterer, which reads the centre and the radius of a segment only, with the centre on the
  first axis or with no centre.
\<close>

definition example_params :: params where
  "example_params = \<lparr>intervalo = 15, rmin = 2, rmax = 50, md = 1 / 2, incluir_ctr = True,
                      dist_agrup = 10\<rparr>"

definition corner :: "point list" where
  "corner = [QgsPointXY 3 0, QgsPointXY 0 0, QgsPointXY 0 4]"

definition corner_segment :: segment where
  "corner_segment = \<lparr>geom = corner, radio = 5 / 2, long = 7,
                      centro = Some (QgsPointXY (3 / 2) 2)\<rparr>"

definition segment_at :: "real \<Rightarrow> segment" where
  "segment_at c = \<lparr>geom = [], radio = 5, long = 1, centro = Some (QgsPointXY c 0)\<rparr>"

definition segment_without_center :: segment where
  "segment_without_center = \<lparr>geom = [], radio = 5, long = 1, centro = None\<rparr>"

section \<open>Properties\<close>

subsection \<open>Heron's formula and the determinant\<close>

lemma heron_poly:
  fixes a b c :: real
  shows "16 * (((a+b+c)/2) * ((a+b+c)/2 - a) * ((a+b+c)/2 - b) * ((a+b+c)/2 - c))
       = 4 * a\<^sup>2 * b\<^sup>2 - (a\<^sup>2 + b\<^sup>2 - c\<^sup>2)\<^sup>2"
  by (simp add: field_simps power2_eq_square)

lemma det_poly:
  fixes ax ay bx bb cx cy :: real
  shows "4 * ((ax - bx)\<^sup>2 + (ay - bb)\<^sup>2) * ((bx - cx)\<^sup>2 + (bb - cy)\<^sup>2)
         - (((ax - bx)\<^sup>2 + (ay - bb)\<^sup>2) + ((bx - cx)\<^sup>2 + (bb - cy)\<^sup>2) - ((cx - ax)\<^sup>2 + (cy - ay)\<^sup>2))\<^sup>2
       = (2 * (ax * (bb - cy) + bx * (cy - ay) + cx * (ay - bb)))\<^sup>2"
  by algebra

lemma distance_sq: "(distance p q)\<^sup>2 = (px p - px q)\<^sup>2 + (py p - py q)\<^sup>2"
  unfolding distance_def by simp

lemma heron_arg_det: "16 * heron_arg p1 p2 p3 = (center_det p1 p2 p3)\<^sup>2"
proof -
  have "16 * heron_arg p1 p2 p3 = 4 * (distance p1 p2)\<^sup>2 * (distance p2 p3)\<^sup>2
      - ((distance p1 p2)\<^sup>2 + (distance p2 p3)\<^sup>2 - (distance p3 p1)\<^sup>2)\<^sup>2"
    unfolding heron_arg_def Let_def by (rule heron_poly)
  also have "\<dots> = (center_det p1 p2 p3)\<^sup>2"
    unfolding distance_sq center_det_def by (rule det_poly)
  finally show ?thesis .
qed

lemma heron_arg_eq: "heron_arg p1 p2 p3 = (center_det p1 p2 p3 / 4)\<^sup>2"
  using heron_arg_det [of p1 p2 p3] by (simp add: power_divide)

lemma circle_radius_eq:
  "circle_radius p1 p2 p3 =
     (if center_det p1 p2 p3 = 0 then None
      else Some (distance p1 p2 * distance p2 p3 * distance p3 p1 / \<bar>center_det p1 p2 p3\<bar>))"
proof -
  have r: "circle_radius p1 p2 p3 =
     (if heron_arg p1 p2 p3 < 0 then None
      else if 4 * sqrt (heron_arg p1 p2 p3) = 0 then None
      else Some (distance p1 p2 * distance p2 p3 * distance p3 p1 / (4 * sqrt (heron_arg p1 p2 p3))))"
    unfolding circle_radius_def heron_arg_def Let_def by simp
  have s: "4 * sqrt (heron_arg p1 p2 p3) = \<bar>center_det p1 p2 p3\<bar>"
    unfolding heron_arg_eq by simp
  have n: "\<not> heron_arg p1 p2 p3 < 0"
    unfolding heron_arg_eq by simp
  show ?thesis unfolding r s using n by simp
qed


subsection \<open>The centre is equidistant from the three points\<close>








subsection \<open>Collinear and distinct points\<close>





text \<open>
  When \<open>circle_radius\<close> returns \<open>None\<close>: the argument of the square root is negative, or
  the area is zero.
\<close>

lemma circle_radius_None_iff:
  "circle_radius p1 p2 p3 = None \<longleftrightarrow>
     heron_arg p1 p2 p3 < 0 \<or> sqrt (heron_arg p1 p2 p3) = 0"
  unfolding circle_radius_def heron_arg_def Let_def by simp

subsection \<open>The corner of the 3-4-5 triangle\<close>

lemma sqrt_25: "sqrt 25 = 5" by (rule real_sqrt_unique) simp_all

lemma distance_same_y: "distance (QgsPointXY a c) (QgsPointXY b c) = \<bar>a - b\<bar>"
  by (simp add: distance_def)

lemma distance_same_x: "distance (QgsPointXY c a) (QgsPointXY c b) = \<bar>a - b\<bar>"
  by (simp add: distance_def)

lemma corner_radius:
  "circle_radius (QgsPointXY 3 0) (QgsPointXY 0 0) (QgsPointXY 0 4) = Some (5 / 2)"
proof -
  have "distance (QgsPointXY 0 4) (QgsPointXY 3 0) = 5"
    by (simp add: distance_def sqrt_25)
  then show ?thesis
    by (simp add: circle_radius_eq center_det_def distance_same_y distance_same_x)
qed

lemma corner_center:
  "circle_center (QgsPointXY 3 0) (QgsPointXY 0 0) (QgsPointXY 0 4) = Some (QgsPointXY (3 / 2) 2)"
  by (simp add: circle_center_def)

lemma triplet_corner:
  "triplet_segment P (QgsPointXY 3 0) (QgsPointXY 0 0) (QgsPointXY 0 4) =
     (if 3 < md P \<or> 4 < md P then None
      else if rmin P < 5 / 2 \<and> 5 / 2 < rmax P
           then Some \<lparr>geom = corner, radio = 5 / 2, long = 7,
                      centro = (if incluir_ctr P then Some (QgsPointXY (3 / 2) 2) else None)\<rparr>
           else None)"
  by (simp add: triplet_segment_def corner_radius corner_center distance_same_y distance_same_x
      corner_def)

subsection \<open>The extraction loops as list functions\<close>

lemma line_loop_eq:
  "line_loop P line js acc = acc @ List.map_filter (triplet_at P line) js"
  by (induction js arbitrary: acc) (auto simp: triplet_at_def split: option.splits)

lemma line_loop_segments:
  "line_loop P line (py_range (int (length line) - 2)) acc = acc @ line_segments P line"
  by (simp add: line_segments_def line_loop_eq)

lemma parts_loop_eq:
  "parts_loop P ps acc = acc @ concat (map (line_segments P) ps)"
  by (induction ps arbitrary: acc) (simp_all add: line_loop_segments)

lemma parts_loop_feature:
  "parts_loop P (parts feat) acc = acc @ feature_segments P feat"
  by (simp add: feature_segments_def parts_loop_eq)

lemma py_range_len: "py_range (int (length line) - 2) = [0..<length line - 2]"
  by (simp add: py_range_def nat_diff_distrib')

lemma length_map_filter_le: "length (List.map_filter f xs) \<le> length xs"
  by (induction xs) (auto split: option.splits)

lemma triplet_segment_geom:
  "triplet_segment P p1 p2 p3 = Some seg \<Longrightarrow> geom seg = [p1, p2, p3]"
  by (auto simp: triplet_segment_def split: if_splits option.splits)

lemma map_filter_mem:
  "y \<in> set (List.map_filter f xs) \<longleftrightarrow> (\<exists>x\<in>set xs. f x = Some y)"
  by (induction xs) (auto split: option.splits)

lemma line_segments_mem:
  assumes "seg \<in> set (line_segments P line)"
  shows "\<exists>j. j + 2 < length line \<and> triplet_at P line j = Some seg"
proof -
  from assms obtain j where "j \<in> set [0..<length line - 2]" "triplet_at P line j = Some seg"
    unfolding line_segments_def line_loop_eq py_range_len
    by (auto simp: map_filter_mem)
  then show ?thesis by (intro exI [of _ j]) auto
qed

lemma line_segments_corner:
  "line_segments example_params corner = [corner_segment]"
  using triplet_corner [of example_params]
  by (simp add: line_segments_def py_range_def corner_def example_params_def corner_segment_def)

lemma feature_segments_corner:
  "feature_segments example_params (Polyline corner) = [corner_segment]"
  using parts_loop_eq [of example_params "[corner]" "[]"]
  by (simp add: feature_segments_def line_segments_corner)

text \<open>
  The loop over the features processes the features before the first poll that answers
  \<open>True\<close>, here the poll number \<open>i + k\<close>, and raises nothing when \<open>total_f\<close> is not zero.
\<close>

lemma features_loop_run:
  assumes "tf \<noteq> 0" "k \<le> length feats" "\<forall>j<k. \<not> canceled (i + j)"
    "k < length feats \<longrightarrow> canceled (i + k)"
  shows "\<exists>pr'. features_loop P canceled tf i feats (acc, pr)
           = Inr (acc @ concat (map (feature_segments P) (take k feats)), pr')"
  using assms
proof (induction feats arbitrary: i k acc pr)
  case Nil
  then show ?case by simp
next
  case (Cons feat rest)
  show ?case
  proof (cases k)
    case 0
    then show ?thesis using Cons.prems by simp
  next
    case (Suc k')
    have nc: "\<not> canceled i" using Cons.prems(3) Suc by force
    have "\<forall>j<k'. \<not> canceled (i + 1 + j)" using Cons.prems(3) Suc by force
    moreover have "k' < length rest \<longrightarrow> canceled (i + 1 + k')" using Cons.prems(4) Suc by simp
    moreover have "k' \<le> length rest" using Cons.prems(2) Suc by simp
    ultimately obtain pr' where
      "features_loop P canceled tf (i + 1) rest
         (acc @ feature_segments P feat, pr @ [(100 * int i) div int tf])
       = Inr ((acc @ feature_segments P feat) @ concat (map (feature_segments P) (take k' rest)), pr')"
      using Cons.IH [OF Cons.prems(1), of k' "i + 1"] by blast
    then show ?thesis using nc Cons.prems(1) Suc by (simp add: parts_loop_feature)
  qed
qed

subsection \<open>The scan of the clusters\<close>

lemma centros_of_length:
  "centros_of segs ks = Inr cs \<Longrightarrow> length cs = length ks"
  by (induction ks arbitrary: cs) (auto split: sum.splits)

lemma centros_of_ok:
  assumes "\<forall>k \<in> set ks. k < length segs \<and> centro (segs ! k) \<noteq> None"
  shows "centros_of segs ks = Inr (map (\<lambda>k. the (centro (segs ! k))) ks)"
  using assms by (induction ks) (auto simp: centro_at_def split: sum.splits option.splits)

lemma scan_clusters_none:
  assumes "\<forall>cl \<in> set cls. \<not> in_reach d pt cl"
  shows "scan_clusters d segs idx seg pt cls cid = Inr None"
  using assms by (induction cls arbitrary: cid) (simp_all add: in_reach_def)

lemma scan_clusters_hit:
  assumes "j < length cls" "in_reach d pt (cls ! j)" "\<forall>i<j. \<not> in_reach d pt (cls ! i)"
    "centros_of segs (indices (cls ! j) @ [idx]) = Inr cs"
  shows "scan_clusters d segs idx seg pt cls cid =
           Inr (Some (cls[j := \<lparr>centroid = mean_point cs, indices = indices (cls ! j) @ [idx],
                                 sum_r = sum_r (cls ! j) + radio seg\<rparr>], cid + j))"
  using assms
proof (induction cls arbitrary: j cid)
  case Nil
  then show ?case by simp
next
  case (Cons cl rest)
  show ?case
  proof (cases j)
    case 0
    have "length cs = Suc (length (indices cl))"
      using centros_of_length [OF Cons.prems(4)] 0 by simp
    then have "cs \<noteq> []" by auto
    then show ?thesis using Cons.prems 0
      by (simp add: in_reach_def mean_point_def Let_def)
  next
    case (Suc j')
    have n: "\<not> distance pt (centroid cl) \<le> d"
      using Cons.prems(3) Suc by (auto simp: in_reach_def)
    have "\<forall>i<j'. \<not> in_reach d pt (rest ! i)" using Cons.prems(3) Suc by auto
    then have "scan_clusters d segs idx seg pt rest (cid + 1) =
           Inr (Some (rest[j' := \<lparr>centroid = mean_point cs, indices = indices (rest ! j') @ [idx],
                                 sum_r = sum_r (rest ! j') + radio seg\<rparr>], cid + 1 + j'))"
      using Cons.IH [of j' "cid + 1"] Cons.prems Suc by simp
    then show ?thesis using n Suc by simp
  qed
qed

lemma first_in_reach:
  assumes "\<exists>cl \<in> set cls. in_reach d pt cl"
  shows "\<exists>j<length cls. in_reach d pt (cls ! j) \<and> (\<forall>i<j. \<not> in_reach d pt (cls ! i))"
proof -
  let ?Q = "\<lambda>j. j < length cls \<and> in_reach d pt (cls ! j)"
  from assms have "\<exists>j. ?Q j" by (auto simp: in_set_conv_nth)
  then have "?Q (LEAST j. ?Q j)" by (rule LeastI_ex)
  moreover have "\<not> in_reach d pt (cls ! i)" if "i < (LEAST j. ?Q j)" for i
  proof -
    have "\<not> ?Q i" using that by (rule not_less_Least)
    moreover have "i < length cls" using that \<open>?Q (LEAST j. ?Q j)\<close> by simp
    ultimately show ?thesis by simp
  qed
  ultimately show ?thesis by blast
qed

text \<open>What one step does: it skips the segment, opens a cluster, or joins the first in reach.\<close>

lemma cluster_step_skip:
  assumes "centro seg = None"
  shows "cluster_step d segs (idx, seg) st = Inr st"
  using assms by (simp add: cluster_step_def)

lemma cluster_step_new:
  assumes "centro seg = Some pt" "\<forall>cl \<in> set (clusters st). \<not> in_reach d pt cl"
  shows "cluster_step d segs (idx, seg) st =
           Inr \<lparr>clusters = clusters st @ [\<lparr>centroid = pt, indices = [idx], sum_r = radio seg\<rparr>],
                mapa_cluster = (mapa_cluster st)(idx \<mapsto> length (clusters st))\<rparr>"
  using assms by (simp add: cluster_step_def scan_clusters_none)

lemma cluster_step_join:
  assumes "centro seg = Some pt" "j < length (clusters st)" "in_reach d pt (clusters st ! j)"
    "\<forall>i<j. \<not> in_reach d pt (clusters st ! i)"
    "centros_of segs (indices (clusters st ! j) @ [idx]) = Inr cs"
  shows "cluster_step d segs (idx, seg) st =
           Inr \<lparr>clusters = (clusters st)[j := \<lparr>centroid = mean_point cs,
                                                indices = indices (clusters st ! j) @ [idx],
                                                sum_r = sum_r (clusters st ! j) + radio seg\<rparr>],
                mapa_cluster = (mapa_cluster st)(idx \<mapsto> j)\<rparr>"
  using assms(1) scan_clusters_hit [OF assms(2-5), of seg 0]
  by (simp add: cluster_step_def)

lemma members_centros:
  assumes "members_ok segs n cls" "j < length cls" "idx < length segs" "centro (segs ! idx) \<noteq> None"
  shows "\<exists>cs. centros_of segs (indices (cls ! j) @ [idx]) = Inr cs"
proof -
  have "\<forall>k \<in> set (indices (cls ! j) @ [idx]). k < length segs \<and> centro (segs ! k) \<noteq> None"
    using assms unfolding members_ok_def by (auto dest: nth_mem)
  from centros_of_ok [OF this] show ?thesis by blast
qed

lemma cluster_step_cases:
  assumes "members_ok segs n (clusters st)" "n < length segs"
  obtains
    (skip) "centro (segs ! n) = None" "cluster_step d segs (n, segs ! n) st = Inr st"
  | (new) pt where "centro (segs ! n) = Some pt"
      "\<forall>cl \<in> set (clusters st). \<not> in_reach d pt cl"
      "cluster_step d segs (n, segs ! n) st =
         Inr \<lparr>clusters = clusters st @ [\<lparr>centroid = pt, indices = [n], sum_r = radio (segs ! n)\<rparr>],
              mapa_cluster = (mapa_cluster st)(n \<mapsto> length (clusters st))\<rparr>"
  | (join) pt j cs where "centro (segs ! n) = Some pt" "j < length (clusters st)"
      "in_reach d pt (clusters st ! j)" "\<forall>i<j. \<not> in_reach d pt (clusters st ! i)"
      "centros_of segs (indices (clusters st ! j) @ [n]) = Inr cs"
      "cluster_step d segs (n, segs ! n) st =
           Inr \<lparr>clusters = (clusters st)[j := \<lparr>centroid = mean_point cs,
                                                indices = indices (clusters st ! j) @ [n],
                                                sum_r = sum_r (clusters st ! j) + radio (segs ! n)\<rparr>],
                mapa_cluster = (mapa_cluster st)(n \<mapsto> j)\<rparr>"
proof (cases "centro (segs ! n)")
  case None
  then show ?thesis using skip cluster_step_skip by blast
next
  case (Some pt)
  show ?thesis
  proof (cases "\<exists>cl \<in> set (clusters st). in_reach d pt cl")
    case False
    then have "\<forall>cl \<in> set (clusters st). \<not> in_reach d pt cl" by blast
    then show ?thesis using new Some cluster_step_new [OF Some] by blast
  next
    case True
    from first_in_reach [OF True] obtain j where
      j: "j < length (clusters st)" "in_reach d pt (clusters st ! j)"
         "\<forall>i<j. \<not> in_reach d pt (clusters st ! i)" by blast
    from members_centros [OF assms(1) j(1) assms(2)] Some obtain cs where
      cs: "centros_of segs (indices (clusters st ! j) @ [n]) = Inr cs" by auto
    show ?thesis
      using join [OF Some j cs] cluster_step_join [OF Some j cs] by blast
  qed
qed

subsection \<open>Invariants of the clusterer\<close>

lemma members_ok_mono: "members_ok segs n cls \<Longrightarrow> n \<le> m \<Longrightarrow> members_ok segs m cls"
  unfolding members_ok_def by fastforce

lemma members_ok_append:
  assumes "members_ok segs n cls" "n < length segs" "centro (segs ! n) \<noteq> None"
  shows "members_ok segs (Suc n) (cls @ [\<lparr>centroid = pt, indices = [n], sum_r = r\<rparr>])"
  using assms unfolding members_ok_def by fastforce

lemma members_ok_update:
  assumes "members_ok segs n cls" "n < length segs" "centro (segs ! n) \<noteq> None" "j < length cls"
  shows "members_ok segs (Suc n) (cls[j := \<lparr>centroid = c, indices = indices (cls ! j) @ [n], sum_r = r\<rparr>])"
proof -
  have a: "\<forall>k \<in> set (indices (cls ! j)). k < n \<and> k < length segs \<and> centro (segs ! k) \<noteq> None"
    using assms(1,4) unfolding members_ok_def by (auto dest: nth_mem)
  show ?thesis
    unfolding members_ok_def
  proof (intro ballI)
    fix cl assume "cl \<in> set (cls[j := \<lparr>centroid = c, indices = indices (cls ! j) @ [n], sum_r = r\<rparr>])"
    then have "cl = \<lparr>centroid = c, indices = indices (cls ! j) @ [n], sum_r = r\<rparr> \<or> cl \<in> set cls"
      using set_update_subset_insert by fastforce
    then show "indices cl \<noteq> [] \<and> (\<forall>k\<in>set (indices cl). k < Suc n \<and> k < length segs \<and> centro (segs ! k) \<noteq> None)"
    proof
      assume "cl = \<lparr>centroid = c, indices = indices (cls ! j) @ [n], sum_r = r\<rparr>"
      then show ?thesis using a assms(2,3) by auto
    next
      assume "cl \<in> set cls"
      then show ?thesis using assms(1) unfolding members_ok_def by fastforce
    qed
  qed
qed

lemma centroids_ok_append:
  assumes "centroids_ok segs cls" "n < length segs" "centro (segs ! n) = Some pt"
  shows "centroids_ok segs (cls @ [\<lparr>centroid = pt, indices = [n], sum_r = r\<rparr>])"
proof -
  have "centros_of segs [n] = Inr [pt]" using assms(2,3) by (simp add: centro_at_def)
  moreover have "mean_point [pt] = pt" by (simp add: mean_point_def)
  ultimately show ?thesis using assms(1) unfolding centroids_ok_def by auto
qed

lemma centroids_ok_update:
  assumes "centroids_ok segs cls" "centros_of segs idxs = Inr cs" "cs \<noteq> []"
  shows "centroids_ok segs (cls[j := \<lparr>centroid = mean_point cs, indices = idxs, sum_r = r\<rparr>])"
  unfolding centroids_ok_def
proof (intro ballI)
  fix cl assume "cl \<in> set (cls[j := \<lparr>centroid = mean_point cs, indices = idxs, sum_r = r\<rparr>])"
  then have "cl = \<lparr>centroid = mean_point cs, indices = idxs, sum_r = r\<rparr> \<or> cl \<in> set cls"
    using set_update_subset_insert by fastforce
  then show "\<exists>cs. centros_of segs (indices cl) = Inr cs \<and> cs \<noteq> [] \<and> centroid cl = mean_point cs"
    using assms unfolding centroids_ok_def by auto
qed

lemma assignments_append:
  "assignments (cls @ [cl]) idx = assignments cls idx + count_list (indices cl) idx"
  by (simp add: assignments_def)

lemma assignments_update:
  assumes "j < length cls" "indices cl' = indices (cls ! j) @ [n]"
  shows "assignments (cls[j := cl']) idx = assignments cls idx + (if idx = n then 1 else 0)"
proof -
  let ?f = "\<lambda>cl. count_list (indices cl) idx"
  have "assignments (cls[j := cl']) idx = sum_list ((map ?f cls)[j := ?f cl'])"
    by (simp add: assignments_def map_update)
  also have "\<dots> = sum_list (map ?f cls) + ?f cl' - (map ?f cls) ! j"
    using assms(1) by (simp add: sum_list_update)
  also have "\<dots> = sum_list (map ?f cls) + (if idx = n then 1 else 0)"
    using assms by simp
  finally show ?thesis by (simp add: assignments_def)
qed

lemma assignments_fresh:
  assumes "members_ok segs n cls"
  shows "assignments cls n = 0"
proof -
  have "count_list (indices cl) n = 0" if "cl \<in> set cls" for cl
    using assms that unfolding members_ok_def by (fastforce simp: count_list_0_iff)
  then show ?thesis by (simp add: assignments_def)
qed

lemma assigned_ok_append:
  assumes "assigned_ok st" "members_ok segs n (clusters st)"
  shows "assigned_ok \<lparr>clusters = clusters st @ [\<lparr>centroid = pt, indices = [n], sum_r = r\<rparr>],
                      mapa_cluster = (mapa_cluster st)(n \<mapsto> length (clusters st))\<rparr>"
proof -
  have a: "assignments (clusters st) idx = (case mapa_cluster st idx of None \<Rightarrow> 0 | Some cid \<Rightarrow> 1)" for idx
    using assms(1) unfolding assigned_ok_def by blast
  have b: "cid < length (clusters st) \<and> idx \<in> set (indices (clusters st ! cid))"
    if "mapa_cluster st idx = Some cid" for idx cid
    using assms(1) that unfolding assigned_ok_def by blast
  show ?thesis
    unfolding assigned_ok_def
  proof (intro conjI allI impI)
    fix idx
    show "assignments (clusters \<lparr>clusters = clusters st @ [\<lparr>centroid = pt, indices = [n], sum_r = r\<rparr>],
                      mapa_cluster = (mapa_cluster st)(n \<mapsto> length (clusters st))\<rparr>) idx =
         (case mapa_cluster \<lparr>clusters = clusters st @ [\<lparr>centroid = pt, indices = [n], sum_r = r\<rparr>],
                      mapa_cluster = (mapa_cluster st)(n \<mapsto> length (clusters st))\<rparr> idx of
            None \<Rightarrow> 0 | Some cid \<Rightarrow> 1)"
      using a [of idx] a [of n] assignments_fresh [OF assms(2)] by (simp add: assignments_append)
  next
    fix idx cid
    assume "mapa_cluster \<lparr>clusters = clusters st @ [\<lparr>centroid = pt, indices = [n], sum_r = r\<rparr>],
                      mapa_cluster = (mapa_cluster st)(n \<mapsto> length (clusters st))\<rparr> idx = Some cid"
    then have m: "((mapa_cluster st)(n \<mapsto> length (clusters st))) idx = Some cid" by simp
    show "cid < length (clusters \<lparr>clusters = clusters st @ [\<lparr>centroid = pt, indices = [n], sum_r = r\<rparr>],
                      mapa_cluster = (mapa_cluster st)(n \<mapsto> length (clusters st))\<rparr>)"
      using m b [of idx cid] by (auto split: if_splits)
    show "idx \<in> set (indices (clusters \<lparr>clusters = clusters st @ [\<lparr>centroid = pt, indices = [n], sum_r = r\<rparr>],
                      mapa_cluster = (mapa_cluster st)(n \<mapsto> length (clusters st))\<rparr> ! cid))"
      using m b [of idx cid] by (auto simp: nth_append split: if_splits)
  qed
qed

lemma assigned_ok_update:
  assumes "assigned_ok st" "members_ok segs n (clusters st)" "j < length (clusters st)"
  shows "assigned_ok \<lparr>clusters = (clusters st)[j := \<lparr>centroid = c,
                                      indices = indices (clusters st ! j) @ [n], sum_r = r\<rparr>],
                      mapa_cluster = (mapa_cluster st)(n \<mapsto> j)\<rparr>"
proof -
  let ?cl = "\<lparr>centroid = c, indices = indices (clusters st ! j) @ [n], sum_r = r\<rparr>"
  have a: "assignments (clusters st) idx = (case mapa_cluster st idx of None \<Rightarrow> 0 | Some cid \<Rightarrow> 1)" for idx
    using assms(1) unfolding assigned_ok_def by blast
  have b: "cid < length (clusters st) \<and> idx \<in> set (indices (clusters st ! cid))"
    if "mapa_cluster st idx = Some cid" for idx cid
    using assms(1) that unfolding assigned_ok_def by blast
  have u: "assignments ((clusters st)[j := ?cl]) idx = assignments (clusters st) idx + (if idx = n then 1 else 0)" for idx
    by (rule assignments_update [OF assms(3)]) simp
  show ?thesis
    unfolding assigned_ok_def
  proof (intro conjI allI impI)
    fix idx
    show "assignments (clusters \<lparr>clusters = (clusters st)[j := ?cl],
                      mapa_cluster = (mapa_cluster st)(n \<mapsto> j)\<rparr>) idx =
         (case mapa_cluster \<lparr>clusters = (clusters st)[j := ?cl],
                      mapa_cluster = (mapa_cluster st)(n \<mapsto> j)\<rparr> idx of
            None \<Rightarrow> 0 | Some cid \<Rightarrow> 1)"
      using a [of idx] a [of n] assignments_fresh [OF assms(2)] u [of idx] by simp
  next
    fix idx cid
    assume "mapa_cluster \<lparr>clusters = (clusters st)[j := ?cl],
                      mapa_cluster = (mapa_cluster st)(n \<mapsto> j)\<rparr> idx = Some cid"
    then have m: "((mapa_cluster st)(n \<mapsto> j)) idx = Some cid" by simp
    show "cid < length (clusters \<lparr>clusters = (clusters st)[j := ?cl],
                      mapa_cluster = (mapa_cluster st)(n \<mapsto> j)\<rparr>)"
      using m b [of idx cid] assms(3) by (auto split: if_splits)
    show "idx \<in> set (indices (clusters \<lparr>clusters = (clusters st)[j := ?cl],
                      mapa_cluster = (mapa_cluster st)(n \<mapsto> j)\<rparr> ! cid))"
      using m b [of idx cid] assms(3) by (auto simp: nth_list_update split: if_splits)
  qed
qed

subsection \<open>The clusterer never raises\<close>

lemma cluster_loop_append:
  "cluster_loop d segs (xs @ ys) st =
     (case cluster_loop d segs xs st of Inl e \<Rightarrow> Inl e | Inr st' \<Rightarrow> cluster_loop d segs ys st')"
  by (induction xs arbitrary: st) (auto split: sum.splits)

lemma cluster_prefix_0: "cluster_prefix d segs 0 = Inr no_clusters"
  by (simp add: cluster_prefix_def)

lemma cluster_prefix_Suc:
  assumes "n < length segs" "cluster_prefix d segs n = Inr st"
  shows "cluster_prefix d segs (Suc n) = cluster_step d segs (n, segs ! n) st"
proof -
  have "take (Suc n) (enumerate 0 segs) = take n (enumerate 0 segs) @ [(n, segs ! n)]"
    using assms(1) by (simp add: take_Suc_conv_app_nth nth_enumerate_eq)
  then show ?thesis using assms(2)
    by (simp add: cluster_prefix_def cluster_loop_append split: sum.splits)
qed

lemma cluster_prefix_beyond:
  assumes "length segs \<le> n"
  shows "cluster_prefix d segs n = cluster_prefix d segs (length segs)"
  using assms by (simp add: cluster_prefix_def)

lemma state_ok_init: "state_ok segs 0 no_clusters"
  by (simp add: state_ok_def no_clusters_def members_ok_def centroids_ok_def assigned_ok_def
      assignments_def)

lemma state_ok_step:
  assumes "state_ok segs n st" "n < length segs"
  shows "\<exists>st'. cluster_step d segs (n, segs ! n) st = Inr st' \<and> state_ok segs (Suc n) st'"
proof -
  have m: "members_ok segs n (clusters st)" and c: "centroids_ok segs (clusters st)"
    and a: "assigned_ok st"
    using assms(1) by (simp_all add: state_ok_def)
  from m assms(2) show ?thesis
  proof (cases rule: cluster_step_cases [where d = d])
    case skip
    then show ?thesis using m c a members_ok_mono [OF m, of "Suc n"]
      by (simp add: state_ok_def)
  next
    case (new pt)
    have "centro (segs ! n) \<noteq> None" using new(1) by simp
    then show ?thesis
      using new(3) members_ok_append [OF m assms(2)] centroids_ok_append [OF c assms(2) new(1)]
        assigned_ok_append [OF a m]
      by (simp add: state_ok_def)
  next
    case (join pt j cs)
    have n: "centro (segs ! n) \<noteq> None" using join(1) by simp
    have "length cs = Suc (length (indices (clusters st ! j)))"
      using centros_of_length [OF join(5)] by simp
    then have "cs \<noteq> []" by auto
    then show ?thesis
      using join(6) members_ok_update [OF m assms(2) n join(2)]
        centroids_ok_update [OF c join(5)] assigned_ok_update [OF a m join(2)]
      by (simp add: state_ok_def)
  qed
qed

lemma cluster_prefix_ok:
  assumes "n \<le> length segs"
  shows "\<exists>st. cluster_prefix d segs n = Inr st \<and> state_ok segs n st"
  using assms
proof (induction n)
  case 0
  then show ?case by (simp add: cluster_prefix_0 state_ok_init)
next
  case (Suc n)
  then obtain st where st: "cluster_prefix d segs n = Inr st" "state_ok segs n st" by auto
  have n: "n < length segs" using Suc.prems by simp
  show ?case using state_ok_step [OF st(2) n, of d] cluster_prefix_Suc [OF n st(1)] by simp
qed

lemma cluster_prefix_total:
  "\<exists>st. cluster_prefix d segs n = Inr st \<and> state_ok segs n st"
proof (cases "n \<le> length segs")
  case True
  then show ?thesis by (rule cluster_prefix_ok)
next
  case False
  then have l: "length segs \<le> n" by simp
  obtain st where "cluster_prefix d segs (length segs) = Inr st" "state_ok segs (length segs) st"
    using cluster_prefix_ok [of "length segs" segs d] by auto
  then show ?thesis
    using cluster_prefix_beyond [OF l, of d] members_ok_mono [OF _ l, of segs "clusters st"]
    by (auto simp: state_ok_def)
qed

lemma cluster_all_total:
  "\<exists>st. cluster_all P segs = Inr st \<and> state_ok segs (length segs) st"
proof (cases "incluir_ctr P")
  case True
  then have "cluster_all P segs = cluster_prefix (dist_agrup P) segs (length segs)"
    by (simp add: cluster_all_def cluster_prefix_def)
  then show ?thesis using cluster_prefix_total [of "dist_agrup P" segs "length segs"] by simp
next
  case False
  then show ?thesis using state_ok_init [of segs] members_ok_mono [of segs 0 "[]" "length segs"]
    by (simp add: cluster_all_def state_ok_def no_clusters_def)
qed

lemma curve_features_nth:
  assumes "idx < length segs"
  shows "curve_features segs m ! idx =
           \<lparr>curve_geometry = geom (segs ! idx), ID_Curva = int idx, ID_Centroide = get_cluster m idx,
            Radio = radio (segs ! idx), Longitud = long (segs ! idx)\<rparr>"
  using assms by (simp add: curve_features_def nth_enumerate_eq)

subsection \<open>The algorithm raises on an invalid layer only\<close>

lemma features_loop_total:
  assumes "feats = [] \<or> tf \<noteq> 0"
  shows "\<exists>r. features_loop P canceled tf i feats st = Inr r"
  using assms
proof (induction feats arbitrary: i st)
  case Nil
  then show ?case by simp
next
  case (Cons feat rest)
  then have tf: "tf \<noteq> 0" by simp
  obtain segmentos progress where st: "st = (segmentos, progress)" by (cases st)
  show ?case using Cons.IH [of "i + 1"] tf unfolding st by (simp add: Let_def)
qed

lemma processAlgorithm_total:
  "\<exists>res. processAlgorithm densify P (Some feats) canceled = Inr res"
proof -
  let ?dens = "densify (intervalo P) feats"
  have "?dens = [] \<or> length ?dens \<noteq> 0" by simp
  from features_loop_total [OF this] obtain segmentos progress where
    "features_loop P canceled (length ?dens) 0 ?dens ([], []) = Inr (segmentos, progress)"
    by (metis surj_pair)
  moreover obtain st where "cluster_all P segmentos = Inr st" using cluster_all_total by blast
  ultimately show ?thesis by (simp add: processAlgorithm_def Let_def)
qed

lemma processAlgorithm_invalid_layer:
  "processAlgorithm densify P None canceled = Inl QgsProcessingException"
  by (simp add: processAlgorithm_def)

subsection \<open>Two runs of the clusterer\<close>

lemma example_prefix_2:
  "cluster_prefix 10 [segment_at 0, segment_at 15, segment_at 9] 2 =
     Inr \<lparr>clusters = [\<lparr>centroid = QgsPointXY 0 0, indices = [0], sum_r = 5\<rparr>,
                       \<lparr>centroid = QgsPointXY 15 0, indices = [1], sum_r = 5\<rparr>],
          mapa_cluster = [0 \<mapsto> 0, 1 \<mapsto> 1]\<rparr>"
  by (simp add: cluster_prefix_def cluster_step_def no_clusters_def segment_at_def
      distance_same_y numeral_2_eq_2)

lemma example_prefix_3:
  "cluster_prefix 10 [segment_at 0, segment_at 15, segment_at 9] 3 =
     Inr \<lparr>clusters = [\<lparr>centroid = QgsPointXY (9 / 2) 0, indices = [0, 2], sum_r = 10\<rparr>,
                       \<lparr>centroid = QgsPointXY 15 0, indices = [1], sum_r = 5\<rparr>],
          mapa_cluster = [0 \<mapsto> 0, 1 \<mapsto> 1, 2 \<mapsto> 0]\<rparr>"
  by (simp add: cluster_prefix_def cluster_step_def no_clusters_def segment_at_def
      distance_same_y centro_at_def numeral_2_eq_2)

lemma example_gap:
  "cluster_all example_params [segment_at 0, segment_without_center, segment_at 9] =
     Inr \<lparr>clusters = [\<lparr>centroid = QgsPointXY (9 / 2) 0, indices = [0, 2], sum_r = 10\<rparr>],
          mapa_cluster = [0 \<mapsto> 0, 2 \<mapsto> 0]\<rparr>"
  by (simp add: cluster_all_def example_params_def cluster_step_def no_clusters_def segment_at_def
      segment_without_center_def distance_same_y centro_at_def numeral_2_eq_2)

section \<open>The properties of the specification\<close>

subsection \<open>The circumcircle solver\<close>






subsection \<open>The segment extractor\<close>

text \<open>
  C5. The radius filter is strict on both bounds: an accepted triplet has
  \<open>rmin < radio < rmax\<close>, a triplet whose radius is \<open>rmin\<close> or \<open>rmax\<close> is rejected, and so
  every segment of a part has its radius strictly between the bounds.
\<close>

theorem range_filter_strict:
  "(\<forall>seg. triplet_segment P p1 p2 p3 = Some seg \<longrightarrow>
       circle_radius p1 p2 p3 = Some (radio seg) \<and> rmin P < radio seg \<and> radio seg < rmax P)
   \<and> (\<forall>r. circle_radius p1 p2 p3 = Some r \<and> (r = rmin P \<or> r = rmax P) \<longrightarrow>
         triplet_segment P p1 p2 p3 = None)
   \<and> (\<forall>seg \<in> set (line_segments P line). rmin P < radio seg \<and> radio seg < rmax P)"
proof -
  have a: "circle_radius p1 p2 p3 = Some (radio seg) \<and> rmin P < radio seg \<and> radio seg < rmax P"
    if "triplet_segment P p1 p2 p3 = Some seg" for seg p1 p2 p3
    using that by (auto simp: triplet_segment_def split: if_splits option.splits)
  have b: "triplet_segment P p1 p2 p3 = None"
    if "circle_radius p1 p2 p3 = Some r \<and> (r = rmin P \<or> r = rmax P)" for r
    using that by (auto simp: triplet_segment_def)
  have c: "rmin P < radio seg \<and> radio seg < rmax P" if "seg \<in> set (line_segments P line)" for seg
    using line_segments_mem [OF that] a unfolding triplet_at_def by blast
  show ?thesis using a b c by blast
qed

theorem range_filter_strict_witness:
  "circle_radius (QgsPointXY 3 0) (QgsPointXY 0 0) (QgsPointXY 0 4) = Some (5 / 2)
   \<and> triplet_segment example_params (QgsPointXY 3 0) (QgsPointXY 0 0) (QgsPointXY 0 4)
       = Some corner_segment
   \<and> rmin example_params < radio corner_segment \<and> radio corner_segment < rmax example_params
   \<and> triplet_segment (example_params\<lparr>rmin := 5 / 2\<rparr>)
        (QgsPointXY 3 0) (QgsPointXY 0 0) (QgsPointXY 0 4) = None
   \<and> triplet_segment (example_params\<lparr>rmax := 5 / 2\<rparr>)
        (QgsPointXY 3 0) (QgsPointXY 0 0) (QgsPointXY 0 4) = None"
proof -
  let ?A = "QgsPointXY 3 0" and ?B = "QgsPointXY 0 0" and ?C = "QgsPointXY 0 4"
  have s: "triplet_segment example_params ?A ?B ?C = Some corner_segment"
    by (simp add: triplet_corner example_params_def corner_segment_def)
  have in_range: "rmin example_params < radio corner_segment \<and> radio corner_segment < rmax example_params"
    using range_filter_strict [of example_params ?A ?B ?C "[]"] s by blast
  have "circle_radius ?A ?B ?C = Some (5 / 2) \<and>
        (5 / 2 = rmin (example_params\<lparr>rmin := 5 / 2\<rparr>) \<or> 5 / 2 = rmax (example_params\<lparr>rmin := 5 / 2\<rparr>))"
    by (simp add: corner_radius)
  with range_filter_strict [of "example_params\<lparr>rmin := 5 / 2\<rparr>" ?A ?B ?C "[]"]
  have lo: "triplet_segment (example_params\<lparr>rmin := 5 / 2\<rparr>) ?A ?B ?C = None"
    by blast
  have "circle_radius ?A ?B ?C = Some (5 / 2) \<and>
        (5 / 2 = rmin (example_params\<lparr>rmax := 5 / 2\<rparr>) \<or> 5 / 2 = rmax (example_params\<lparr>rmax := 5 / 2\<rparr>))"
    by (simp add: corner_radius)
  with range_filter_strict [of "example_params\<lparr>rmax := 5 / 2\<rparr>" ?A ?B ?C "[]"]
  have hi: "triplet_segment (example_params\<lparr>rmax := 5 / 2\<rparr>) ?A ?B ?C = None"
    by blast
  show ?thesis using corner_radius s in_range lo hi by simp
qed

text \<open>
  C6. For a part of \<open>L\<close> vertices the loop visits the triplets that start at
  \<open>j = 0, ..., L - 3\<close>, which are \<open>max(0, L - 2)\<close> triplets of consecutive vertices of that
  part; the part yields at most that many segments; the segments of a feature are those of
  its parts, one part after the other, so each is made of three consecutive vertices of one
  part.
\<close>

theorem triplets_of_part:
  "line_segments P line = List.map_filter (triplet_at P line) [0..<length line - 2]
   \<and> py_range (int (length line) - 2) = [0..<length line - 2]
   \<and> int (length [0..<length line - 2]) = max 0 (int (length line) - 2)
   \<and> (\<forall>j \<in> set [0..<length line - 2]. j + 2 < length line)
   \<and> int (length (line_segments P line)) \<le> max 0 (int (length line) - 2)
   \<and> feature_segments P feat = concat (map (line_segments P) (parts feat))
   \<and> (\<forall>seg \<in> set (feature_segments P feat). \<exists>part \<in> set (parts feat). \<exists>j.
         j + 2 < length part \<and> geom seg = [part ! j, part ! (j + 1), part ! (j + 2)])"
proof -
  have 1: "line_segments P line = List.map_filter (triplet_at P line) [0..<length line - 2]"
    by (simp add: line_segments_def line_loop_eq py_range_len)
  have 3: "int (length [0..<length line - 2]) = max 0 (int (length line) - 2)"
    by simp
  have 4: "\<forall>j \<in> set [0..<length line - 2]. j + 2 < length line"
    by auto
  have "length (line_segments P line) \<le> length [0..<length line - 2]"
    unfolding 1 by (rule length_map_filter_le)
  then have 5: "int (length (line_segments P line)) \<le> max 0 (int (length line) - 2)"
    by simp
  have 6: "feature_segments P feat = concat (map (line_segments P) (parts feat))"
    using parts_loop_eq [of P "parts feat" "[]"] by (simp add: feature_segments_def)
  have 7: "\<exists>part \<in> set (parts feat). \<exists>j.
         j + 2 < length part \<and> geom seg = [part ! j, part ! (j + 1), part ! (j + 2)]"
    if "seg \<in> set (feature_segments P feat)" for seg
  proof -
    from that obtain part where p: "part \<in> set (parts feat)" "seg \<in> set (line_segments P part)"
      unfolding 6 by auto
    from line_segments_mem [OF p(2)] obtain j where
      j: "j + 2 < length part" "triplet_at P part j = Some seg" by blast
    have "geom seg = [part ! j, part ! (j + 1), part ! (j + 2)]"
      using j(2) unfolding triplet_at_def by (rule triplet_segment_geom)
    then show ?thesis using p(1) j(1) by blast
  qed
  show ?thesis using 1 py_range_len 3 4 5 6 7 by blast
qed

theorem triplets_of_part_witness:
  "length corner = 3
   \<and> line_segments example_params corner = [corner_segment]
   \<and> line_segments example_params [QgsPointXY 0 0] = []
   \<and> feature_segments example_params (MultiPolyline [corner, [QgsPointXY 0 0, QgsPointXY 3 0]])
       = [corner_segment]"
proof -
  let ?f = "MultiPolyline [corner, [QgsPointXY 0 0, QgsPointXY 3 0]]"
  have t: "triplet_at example_params corner 0 = Some corner_segment"
    using triplet_corner [of example_params]
    by (simp add: triplet_at_def corner_def example_params_def corner_segment_def)
  have l: "length corner = 3" by (simp add: corner_def)
  have 1: "line_segments example_params corner = [corner_segment]"
    using triplets_of_part [of example_params corner ?f] t l
    by simp
  have 2: "line_segments example_params [QgsPointXY 0 0] = []"
    using triplets_of_part [of example_params "[QgsPointXY 0 0]" ?f]
    by simp
  have 3: "line_segments example_params [QgsPointXY 0 0, QgsPointXY 3 0] = []"
    using triplets_of_part [of example_params "[QgsPointXY 0 0, QgsPointXY 3 0]" ?f]
    by simp
  have 4: "feature_segments example_params ?f = [corner_segment]"
    using triplets_of_part [of example_params corner ?f] 1 3 by simp
  show ?thesis using l 1 2 4 by simp
qed

text \<open>
  C7. A triplet whose first or second edge is shorter than \<open>md\<close> is not accepted, whatever
  its radius.
\<close>

theorem spacing_filter_rejects:
  assumes "distance p1 p2 < md P \<or> distance p2 p3 < md P"
  shows "triplet_segment P p1 p2 p3 = None"
  using assms by (simp add: triplet_segment_def)

theorem spacing_filter_rejects_witness:
  "distance (QgsPointXY 3 0) (QgsPointXY 0 0) < md (example_params\<lparr>md := 7 / 2\<rparr>)
   \<and> circle_radius (QgsPointXY 3 0) (QgsPointXY 0 0) (QgsPointXY 0 4) = Some (5 / 2)
   \<and> rmin (example_params\<lparr>md := 7 / 2\<rparr>) < 5 / 2 \<and> 5 / 2 < rmax (example_params\<lparr>md := 7 / 2\<rparr>)
   \<and> triplet_segment (example_params\<lparr>md := 7 / 2\<rparr>)
        (QgsPointXY 3 0) (QgsPointXY 0 0) (QgsPointXY 0 4) = None"
proof -
  let ?P = "example_params\<lparr>md := 7 / 2\<rparr>"
  have d: "distance (QgsPointXY 3 0) (QgsPointXY 0 0) < md ?P"
    by (simp add: distance_same_y)
  then have h: "distance (QgsPointXY 3 0) (QgsPointXY 0 0) < md ?P
      \<or> distance (QgsPointXY 0 0) (QgsPointXY 0 4) < md ?P" by simp
  show ?thesis
    using d corner_radius spacing_filter_rejects [OF h] by (simp add: example_params_def)
qed

text \<open>
  C10. When the poll before feature number \<open>k\<close> is the first to report cancellation, the
  loop stops there: the segments are those of the first \<open>k\<close> features, and the algorithm
  goes on to build its outputs from them and raises nothing.
\<close>

theorem cancellation_keeps_partial_result:
  assumes "k < length (densify (intervalo P) feats)" "canceled k" "\<forall>i<k. \<not> canceled i"
  shows "\<exists>progress st.
     features_loop P canceled (length (densify (intervalo P) feats)) 0
         (densify (intervalo P) feats) ([], [])
       = Inr (concat (map (feature_segments P) (take k (densify (intervalo P) feats))), progress) \<and>
     cluster_all P (concat (map (feature_segments P) (take k (densify (intervalo P) feats)))) = Inr st \<and>
     processAlgorithm densify P (Some feats) canceled =
       Inr \<lparr>OUTPUT_CURVES =
              curve_features (concat (map (feature_segments P) (take k (densify (intervalo P) feats))))
                (mapa_cluster st),
            OUTPUT_CENTERS = (if incluir_ctr P then Some (center_features (clusters st)) else None),
            progress_log = progress\<rparr>"
proof -
  let ?dens = "densify (intervalo P) feats"
  let ?segs = "concat (map (feature_segments P) (take k ?dens))"
  have tf: "length ?dens \<noteq> 0" using assms(1) by auto
  have "\<exists>pr'. features_loop P canceled (length ?dens) 0 ?dens ([], []) = Inr ([] @ ?segs, pr')"
    by (rule features_loop_run [OF tf]) (use assms in simp_all)
  then obtain progress where
    f: "features_loop P canceled (length ?dens) 0 ?dens ([], []) = Inr (?segs, progress)" by auto
  obtain st where st: "cluster_all P ?segs = Inr st" using cluster_all_total by blast
  have "processAlgorithm densify P (Some feats) canceled =
       Inr \<lparr>OUTPUT_CURVES = curve_features ?segs (mapa_cluster st),
            OUTPUT_CENTERS = (if incluir_ctr P then Some (center_features (clusters st)) else None),
            progress_log = progress\<rparr>"
    using f st by (simp add: processAlgorithm_def Let_def)
  then show ?thesis using f st by blast
qed

theorem cancellation_keeps_partial_result_witness:
  "1 < length [Polyline corner, Polyline corner, Polyline corner]
   \<and> \<not> (1::nat) \<le> 0 \<and> (1::nat) \<le> 1
   \<and> features_loop example_params (\<lambda>i. 1 \<le> i) 3 0
        [Polyline corner, Polyline corner, Polyline corner] ([], [])
       = Inr ([corner_segment], [0])
   \<and> (\<exists>res. processAlgorithm (\<lambda>interval feats. feats) example_params
               (Some [Polyline corner, Polyline corner, Polyline corner]) (\<lambda>i. 1 \<le> i) = Inr res
             \<and> map Radio (OUTPUT_CURVES res) = [5 / 2]
             \<and> map curve_geometry (OUTPUT_CURVES res) = [corner])"
proof -
  let ?feats = "[Polyline corner, Polyline corner, Polyline corner]"
  let ?dens = "(\<lambda>interval feats. feats) (intervalo example_params) ?feats"
  have k: "1 < length ?dens" by simp
  have c: "(\<lambda>i. 1 \<le> i) (1::nat)" by simp
  have b: "\<forall>i<1. \<not> (\<lambda>i. 1 \<le> i) (i::nat)" by simp
  have loop: "features_loop example_params (\<lambda>i. 1 \<le> i) 3 0 ?feats ([], []) = Inr ([corner_segment], [0])"
    using parts_loop_feature [of example_params "Polyline corner" "[]"]
    by (simp add: feature_segments_corner)
  have run: "\<exists>res. processAlgorithm (\<lambda>interval feats. feats) example_params (Some ?feats)
                   (\<lambda>i. 1 \<le> i) = Inr res
             \<and> map Radio (OUTPUT_CURVES res) = [5 / 2]
             \<and> map curve_geometry (OUTPUT_CURVES res) = [corner]"
    using cancellation_keeps_partial_result [of 1 "\<lambda>interval feats. feats" example_params ?feats
      "\<lambda>i. 1 \<le> i", OF k c b]
    by (auto simp: feature_segments_corner curve_features_def corner_segment_def)
  show ?thesis using loop run by simp
qed

subsection \<open>The incremental clusterer\<close>

text \<open>
  C2. Let segment \<open>idx\<close> have the centre \<open>pt\<close>, and let \<open>st\<close> be the state once the
  segments before it have been scanned. If the centroid of some cluster is within \<open>d\<close>
  (inclusive) of \<open>pt\<close>, the segment goes to the first such cluster \<open>cid\<close> in the order of
  creation: it is appended to that cluster's members and mapped to it, and no other cluster
  changes, however near a later one is. If no cluster is in reach, a new cluster with this
  segment as its only member is appended.
\<close>

theorem greedy_first_fit:
  assumes "idx < length segs" "centro (segs ! idx) = Some pt"
  shows "\<exists>st. cluster_prefix d segs idx = Inr st \<and>
     ((\<exists>cl \<in> set (clusters st). in_reach d pt cl) \<longrightarrow>
        (\<exists>cid st'. cid < length (clusters st) \<and> in_reach d pt (clusters st ! cid) \<and>
               (\<forall>j<cid. \<not> in_reach d pt (clusters st ! j)) \<and>
               cluster_prefix d segs (Suc idx) = Inr st' \<and>
               mapa_cluster st' = (mapa_cluster st)(idx \<mapsto> cid) \<and>
               length (clusters st') = length (clusters st) \<and>
               indices (clusters st' ! cid) = indices (clusters st ! cid) @ [idx] \<and>
               (\<forall>j<length (clusters st). j \<noteq> cid \<longrightarrow> clusters st' ! j = clusters st ! j))) \<and>
     ((\<forall>cl \<in> set (clusters st). \<not> in_reach d pt cl) \<longrightarrow>
        cluster_prefix d segs (Suc idx) =
          Inr \<lparr>clusters = clusters st @
                  [\<lparr>centroid = pt, indices = [idx], sum_r = radio (segs ! idx)\<rparr>],
               mapa_cluster = (mapa_cluster st)(idx \<mapsto> length (clusters st))\<rparr>)"
proof -
  obtain st where st: "cluster_prefix d segs idx = Inr st" "state_ok segs idx st"
    using cluster_prefix_total by blast
  have m: "members_ok segs idx (clusters st)" using st(2) by (simp add: state_ok_def)
  have step: "cluster_prefix d segs (Suc idx) = cluster_step d segs (idx, segs ! idx) st"
    by (rule cluster_prefix_Suc [OF assms(1) st(1)])
  have join: "\<exists>cid st'. cid < length (clusters st) \<and> in_reach d pt (clusters st ! cid) \<and>
               (\<forall>j<cid. \<not> in_reach d pt (clusters st ! j)) \<and>
               cluster_prefix d segs (Suc idx) = Inr st' \<and>
               mapa_cluster st' = (mapa_cluster st)(idx \<mapsto> cid) \<and>
               length (clusters st') = length (clusters st) \<and>
               indices (clusters st' ! cid) = indices (clusters st ! cid) @ [idx] \<and>
               (\<forall>j<length (clusters st). j \<noteq> cid \<longrightarrow> clusters st' ! j = clusters st ! j)"
    if r: "\<exists>cl \<in> set (clusters st). in_reach d pt cl"
  proof -
    from first_in_reach [OF r] obtain cid where
      c: "cid < length (clusters st)" "in_reach d pt (clusters st ! cid)"
         "\<forall>j<cid. \<not> in_reach d pt (clusters st ! j)" by blast
    have "centro (segs ! idx) \<noteq> None" using assms(2) by simp
    from members_centros [OF m c(1) assms(1) this] obtain cs where
      cs: "centros_of segs (indices (clusters st ! cid) @ [idx]) = Inr cs" by blast
    let ?st' = "\<lparr>clusters = (clusters st)[cid := \<lparr>centroid = mean_point cs,
                                                indices = indices (clusters st ! cid) @ [idx],
                                                sum_r = sum_r (clusters st ! cid) + radio (segs ! idx)\<rparr>],
                mapa_cluster = (mapa_cluster st)(idx \<mapsto> cid)\<rparr>"
    have s: "cluster_prefix d segs (Suc idx) = Inr ?st'"
      using cluster_step_join [OF assms(2) c cs] step by simp
    have "mapa_cluster ?st' = (mapa_cluster st)(idx \<mapsto> cid)" by simp
    moreover have "length (clusters ?st') = length (clusters st)" by simp
    moreover have "indices (clusters ?st' ! cid) = indices (clusters st ! cid) @ [idx]"
      using c(1) by simp
    moreover have "\<forall>j<length (clusters st). j \<noteq> cid \<longrightarrow> clusters ?st' ! j = clusters st ! j"
      by simp
    ultimately show ?thesis using c s by blast
  qed
  have new: "cluster_prefix d segs (Suc idx) =
          Inr \<lparr>clusters = clusters st @
                  [\<lparr>centroid = pt, indices = [idx], sum_r = radio (segs ! idx)\<rparr>],
               mapa_cluster = (mapa_cluster st)(idx \<mapsto> length (clusters st))\<rparr>"
    if "\<forall>cl \<in> set (clusters st). \<not> in_reach d pt cl"
    using step cluster_step_new [OF assms(2) that] by simp
  show ?thesis using st(1) join new by blast
qed

theorem greedy_first_fit_witness:
  "2 < length [segment_at 0, segment_at 15, segment_at 9]
   \<and> centro ([segment_at 0, segment_at 15, segment_at 9] ! 2) = Some (QgsPointXY 9 0)
   \<and> cluster_prefix 10 [segment_at 0, segment_at 15, segment_at 9] 2 =
       Inr \<lparr>clusters = [\<lparr>centroid = QgsPointXY 0 0, indices = [0], sum_r = 5\<rparr>,
                         \<lparr>centroid = QgsPointXY 15 0, indices = [1], sum_r = 5\<rparr>],
            mapa_cluster = [0 \<mapsto> 0, 1 \<mapsto> 1]\<rparr>
   \<and> in_reach 10 (QgsPointXY 9 0) \<lparr>centroid = QgsPointXY 0 0, indices = [0], sum_r = 5\<rparr>
   \<and> in_reach 10 (QgsPointXY 9 0) \<lparr>centroid = QgsPointXY 15 0, indices = [1], sum_r = 5\<rparr>
   \<and> distance (QgsPointXY 9 0) (QgsPointXY 15 0) < distance (QgsPointXY 9 0) (QgsPointXY 0 0)
   \<and> (\<exists>st'. cluster_prefix 10 [segment_at 0, segment_at 15, segment_at 9] (Suc 2) = Inr st'
             \<and> mapa_cluster st' 2 = Some 0
             \<and> length (clusters st') = 2
             \<and> indices (clusters st' ! 0) = [0, 2]
             \<and> clusters st' ! 1 = \<lparr>centroid = QgsPointXY 15 0, indices = [1], sum_r = 5\<rparr>)"
proof -
  let ?segs = "[segment_at 0, segment_at 15, segment_at 9]"
  let ?c0 = "\<lparr>centroid = QgsPointXY 0 0, indices = [0], sum_r = 5\<rparr>"
  let ?c1 = "\<lparr>centroid = QgsPointXY 15 0, indices = [1], sum_r = 5\<rparr>"
  have l: "2 < length ?segs" by simp
  have c: "centro (?segs ! 2) = Some (QgsPointXY 9 0)" by (simp add: segment_at_def)
  have r0: "in_reach 10 (QgsPointXY 9 0) ?c0" by (simp add: in_reach_def distance_same_y)
  have r1: "in_reach 10 (QgsPointXY 9 0) ?c1" by (simp add: in_reach_def distance_same_y)
  have nearer: "distance (QgsPointXY 9 0) (QgsPointXY 15 0) < distance (QgsPointXY 9 0) (QgsPointXY 0 0)"
    by (simp add: distance_same_y)
  obtain st where st: "cluster_prefix 10 ?segs 2 = Inr st"
    and join: "(\<exists>cl \<in> set (clusters st). in_reach 10 (QgsPointXY 9 0) cl) \<Longrightarrow>
        (\<exists>cid st'. cid < length (clusters st) \<and> in_reach 10 (QgsPointXY 9 0) (clusters st ! cid) \<and>
               (\<forall>j<cid. \<not> in_reach 10 (QgsPointXY 9 0) (clusters st ! j)) \<and>
               cluster_prefix 10 ?segs (Suc 2) = Inr st' \<and>
               mapa_cluster st' = (mapa_cluster st)(2 \<mapsto> cid) \<and>
               length (clusters st') = length (clusters st) \<and>
               indices (clusters st' ! cid) = indices (clusters st ! cid) @ [2] \<and>
               (\<forall>j<length (clusters st). j \<noteq> cid \<longrightarrow> clusters st' ! j = clusters st ! j))"
    using greedy_first_fit [OF l c, where d = 10] by blast
  have s: "clusters st = [?c0, ?c1]" using st by (auto simp: example_prefix_2)
  have "\<exists>cl \<in> set (clusters st). in_reach 10 (QgsPointXY 9 0) cl" using s r0 by simp
  from join [OF this] obtain cid st' where st':
    "\<forall>j<cid. \<not> in_reach 10 (QgsPointXY 9 0) (clusters st ! j)"
    "cluster_prefix 10 ?segs (Suc 2) = Inr st'"
    "mapa_cluster st' = (mapa_cluster st)(2 \<mapsto> cid)"
    "length (clusters st') = length (clusters st)"
    "indices (clusters st' ! cid) = indices (clusters st ! cid) @ [2]"
    "\<forall>j<length (clusters st). j \<noteq> cid \<longrightarrow> clusters st' ! j = clusters st ! j"
    by blast
  have cid: "cid = 0"
  proof (rule ccontr)
    assume "cid \<noteq> 0"
    then have "\<not> in_reach 10 (QgsPointXY 9 0) (clusters st ! 0)" using st'(1) by simp
    then show False using s r0 by simp
  qed
  have "clusters st' ! 1 = ?c1" using st'(6) s cid by simp
  moreover have "indices (clusters st' ! 0) = [0, 2]" using st'(5) s cid by simp
  moreover have "length (clusters st') = 2" using st'(4) s by simp
  moreover have "mapa_cluster st' 2 = Some 0" using st'(3) cid by simp
  ultimately show ?thesis using l c r0 r1 nearer st'(2) example_prefix_2 by blast
qed

text \<open>
  C3. After any number \<open>n\<close> of steps of the clusterer, every cluster's centroid is the
  arithmetic mean of the centres of the segments in its list of members.
\<close>

theorem centroid_is_mean_of_members:
  "\<exists>st. cluster_prefix d segs n = Inr st \<and>
     (\<forall>cl \<in> set (clusters st).
        \<exists>cs. centros_of segs (indices cl) = Inr cs \<and> cs \<noteq> [] \<and> centroid cl = mean_point cs)"
proof -
  obtain st where st: "cluster_prefix d segs n = Inr st" "state_ok segs n st"
    using cluster_prefix_total by blast
  then have "centroids_ok segs (clusters st)" by (simp add: state_ok_def)
  then show ?thesis using st(1) unfolding centroids_ok_def by blast
qed

theorem centroid_is_mean_of_members_witness:
  "\<exists>st. cluster_prefix 10 [segment_at 0, segment_at 15, segment_at 9] 3 = Inr st
        \<and> centroids_ok [segment_at 0, segment_at 15, segment_at 9] (clusters st)
        \<and> clusters st ! 0 = \<lparr>centroid = QgsPointXY (9 / 2) 0, indices = [0, 2], sum_r = 10\<rparr>
        \<and> centros_of [segment_at 0, segment_at 15, segment_at 9] [0, 2]
            = Inr [QgsPointXY 0 0, QgsPointXY 9 0]
        \<and> mean_point [QgsPointXY 0 0, QgsPointXY 9 0] = QgsPointXY (9 / 2) 0"
proof -
  let ?segs = "[segment_at 0, segment_at 15, segment_at 9]"
  obtain st where st: "cluster_prefix 10 ?segs 3 = Inr st" "centroids_ok ?segs (clusters st)"
    using centroid_is_mean_of_members [of 10 ?segs 3] unfolding centroids_ok_def by blast
  have "clusters st ! 0 = \<lparr>centroid = QgsPointXY (9 / 2) 0, indices = [0, 2], sum_r = 10\<rparr>"
    using st(1) by (auto simp: example_prefix_3)
  moreover have "centros_of ?segs [0, 2] = Inr [QgsPointXY 0 0, QgsPointXY 9 0]"
    by (simp add: centro_at_def segment_at_def)
  moreover have "mean_point [QgsPointXY 0 0, QgsPointXY 9 0] = QgsPointXY (9 / 2) 0"
    by (simp add: mean_point_def)
  ultimately show ?thesis using st by (intro exI [of _ st]) simp
qed

text \<open>
  C9. The clusterer ends without raising; every segment gets one curve feature, numbered by
  its index; a segment is listed as a member at most once over all clusters, and when the
  map names a cluster for it, it is in that cluster's list and the feature carries that
  number; a segment without a centre, or any segment when the centres layer is off, is
  listed nowhere and its feature carries \<open>-1\<close>.
\<close>

theorem one_assignment_per_segment:
  "\<exists>st. cluster_all P segs = Inr st \<and>
     length (curve_features segs (mapa_cluster st)) = length segs \<and>
     (\<forall>idx<length segs.
        ID_Curva (curve_features segs (mapa_cluster st) ! idx) = int idx \<and>
        assignments (clusters st) idx \<le> 1 \<and>
        (\<forall>cid. mapa_cluster st idx = Some cid \<longrightarrow>
           cid < length (clusters st) \<and> idx \<in> set (indices (clusters st ! cid)) \<and>
           ID_Centroide (curve_features segs (mapa_cluster st) ! idx) = int cid) \<and>
        (centro (segs ! idx) = None \<or> \<not> incluir_ctr P \<longrightarrow>
           assignments (clusters st) idx = 0 \<and>
           ID_Centroide (curve_features segs (mapa_cluster st) ! idx) = - 1))"
proof -
  obtain st where st: "cluster_all P segs = Inr st" "state_ok segs (length segs) st"
    using cluster_all_total by blast
  have m: "members_ok segs (length segs) (clusters st)" and a: "assigned_ok st"
    using st(2) by (simp_all add: state_ok_def)
  have cnt: "assignments (clusters st) idx = (case mapa_cluster st idx of None \<Rightarrow> 0 | Some cid \<Rightarrow> 1)" for idx
    using a unfolding assigned_ok_def by blast
  have mem: "cid < length (clusters st) \<and> idx \<in> set (indices (clusters st ! cid))"
    if "mapa_cluster st idx = Some cid" for idx cid
    using a that unfolding assigned_ok_def by blast
  have off: "mapa_cluster st = Map.empty" if "\<not> incluir_ctr P"
    using st(1) that by (auto simp: cluster_all_def no_clusters_def)
  have none: "mapa_cluster st idx = None" if "centro (segs ! idx) = None \<or> \<not> incluir_ctr P" for idx
  proof (cases "mapa_cluster st idx")
    case None
    then show ?thesis .
  next
    case (Some cid)
    from mem [OF Some] have "clusters st ! cid \<in> set (clusters st)"
      "idx \<in> set (indices (clusters st ! cid))" by simp_all
    then have "centro (segs ! idx) \<noteq> None" using m unfolding members_ok_def by blast
    then show ?thesis using that off Some by auto
  qed
  have 1: "length (curve_features segs (mapa_cluster st)) = length segs"
    by (simp add: curve_features_def)
  have 2: "ID_Curva (curve_features segs (mapa_cluster st) ! idx) = int idx \<and>
        assignments (clusters st) idx \<le> 1 \<and>
        (\<forall>cid. mapa_cluster st idx = Some cid \<longrightarrow>
           cid < length (clusters st) \<and> idx \<in> set (indices (clusters st ! cid)) \<and>
           ID_Centroide (curve_features segs (mapa_cluster st) ! idx) = int cid) \<and>
        (centro (segs ! idx) = None \<or> \<not> incluir_ctr P \<longrightarrow>
           assignments (clusters st) idx = 0 \<and>
           ID_Centroide (curve_features segs (mapa_cluster st) ! idx) = - 1)"
    if i: "idx < length segs" for idx
  proof (intro conjI allI impI)
    show "ID_Curva (curve_features segs (mapa_cluster st) ! idx) = int idx"
      by (simp add: curve_features_nth [OF i])
    show "assignments (clusters st) idx \<le> 1"
      using cnt [of idx] by (simp split: option.splits)
  next
    fix cid assume s: "mapa_cluster st idx = Some cid"
    show "cid < length (clusters st)" "idx \<in> set (indices (clusters st ! cid))"
      using mem [OF s] by simp_all
    show "ID_Centroide (curve_features segs (mapa_cluster st) ! idx) = int cid"
      using s by (simp add: curve_features_nth [OF i] get_cluster_def)
  next
    assume n: "centro (segs ! idx) = None \<or> \<not> incluir_ctr P"
    show "assignments (clusters st) idx = 0"
      using cnt [of idx] none [OF n] by simp
    show "ID_Centroide (curve_features segs (mapa_cluster st) ! idx) = - 1"
      using none [OF n] by (simp add: curve_features_nth [OF i] get_cluster_def)
  qed
  show ?thesis using st(1) 1 2 by blast
qed

theorem one_assignment_per_segment_witness:
  "\<exists>st. cluster_all example_params [segment_at 0, segment_without_center, segment_at 9] = Inr st
        \<and> centro ([segment_at 0, segment_without_center, segment_at 9] ! 1) = None
        \<and> map ID_Curva (curve_features [segment_at 0, segment_without_center, segment_at 9]
                          (mapa_cluster st)) = [0, 1, 2]
        \<and> map ID_Centroide (curve_features [segment_at 0, segment_without_center, segment_at 9]
                              (mapa_cluster st)) = [0, - 1, 0]
        \<and> map (assignments (clusters st)) [0, 1, 2] = [1, 0, 1]"
proof -
  let ?segs = "[segment_at 0, segment_without_center, segment_at 9]"
  obtain st where st: "cluster_all example_params ?segs = Inr st"
    and each: "\<And>idx. idx < length ?segs \<Longrightarrow>
        ID_Curva (curve_features ?segs (mapa_cluster st) ! idx) = int idx \<and>
        assignments (clusters st) idx \<le> 1 \<and>
        (\<forall>cid. mapa_cluster st idx = Some cid \<longrightarrow>
           cid < length (clusters st) \<and> idx \<in> set (indices (clusters st ! cid)) \<and>
           ID_Centroide (curve_features ?segs (mapa_cluster st) ! idx) = int cid) \<and>
        (centro (?segs ! idx) = None \<or> \<not> incluir_ctr example_params \<longrightarrow>
           assignments (clusters st) idx = 0 \<and>
           ID_Centroide (curve_features ?segs (mapa_cluster st) ! idx) = - 1)"
    using one_assignment_per_segment [of example_params ?segs] by blast
  have n: "centro (?segs ! 1) = None" by (simp add: segment_without_center_def)
  have one: "assignments (clusters st) 1 = 0 \<and>
      ID_Centroide (curve_features ?segs (mapa_cluster st) ! 1) = - 1"
    using each [of 1] n by simp
  have v: "st = \<lparr>clusters = [\<lparr>centroid = QgsPointXY (9 / 2) 0, indices = [0, 2], sum_r = 10\<rparr>],
                  mapa_cluster = [0 \<mapsto> 0, 2 \<mapsto> 0]\<rparr>"
    using st by (simp add: example_gap)
  have "map ID_Curva (curve_features ?segs (mapa_cluster st)) = [0, 1, 2]"
    by (simp add: curve_features_def)
  moreover have "map ID_Centroide (curve_features ?segs (mapa_cluster st)) = [0, - 1, 0]"
    using one by (simp add: curve_features_def v get_cluster_def)
  moreover have "map (assignments (clusters st)) [0, 1, 2] = [1, 0, 1]"
    using one by (simp add: v assignments_def)
  ultimately show ?thesis using st n by (intro exI [of _ st]) simp
qed

end
